theory Spec2Isabelle
  imports Main
begin

section \<open>The logging pipeline of libdevcore/Log.cpp\<close>

text \<open>
  The theory embeds the Boost.Log based branch of \<^verbatim>\<open>libdevcore/Log.cpp\<close> (the one compiled
  when \<^verbatim>\<open>QTEP_BUILD\<close> is not defined): the severity labels, the sink filter, the formatter,
  the thread name functions in their three builds and the set-up operation with its trace
  flag. What Boost.Log does between an emission and the output stream is not among the
  sources; where a property needs it, it is modelled from the specification and marked so.

  C++ \<^verbatim>\<open>int\<close> values are only compared, never computed with, so they are modelled as
  \<^typ>\<open>int\<close>; \<^verbatim>\<open>std::string\<close> is \<^typ>\<open>string\<close>.
\<close>

subsection \<open>Severity levels and their labels\<close>

text \<open>
  The enumerators \<^verbatim>\<open>VerbosityError\<close> ... \<^verbatim>\<open>VerbosityTrace\<close> are declared in
  \<^verbatim>\<open>Log.h\<close>, which is not among the sources. Their numeric values are therefore a parameter of
  the model: every function that mentions an enumerator takes the table of levels.
\<close>

record verbosity_levels =
  VerbosityError :: int
  VerbosityWarning :: int
  VerbosityInfo :: int
  VerbosityDebug :: int
  VerbosityTrace :: int

text \<open>
  The order the specification gives the levels (Error < Warning < Info < Debug < Trace).
\<close>

definition ordered_levels :: "verbosity_levels \<Rightarrow> bool" where
  "ordered_levels L =
     (VerbosityError L < VerbosityWarning L \<and> VerbosityWarning L < VerbosityInfo L \<and>
      VerbosityInfo L < VerbosityDebug L \<and> VerbosityDebug L < VerbosityTrace L)"

text \<open>
  A \<^verbatim>\<open>switch\<close> only compiles when its case labels are pairwise different.
\<close>

definition distinct_levels :: "verbosity_levels \<Rightarrow> bool" where
  "distinct_levels L =
     distinct [VerbosityError L, VerbosityWarning L, VerbosityInfo L, VerbosityDebug L,
       VerbosityTrace L]"

text \<open>
  \<^verbatim>\<open>std::string verbosityToString(int _verbosity)\<close>: the \<^verbatim>\<open>switch\<close> with its five cases in
  source order, and the \<^verbatim>\<open>return {}\<close> after it.
\<close>

definition verbosityToString :: "verbosity_levels \<Rightarrow> int \<Rightarrow> string" where
  "verbosityToString L v =
     (if v = VerbosityError L then ''ERROR''
      else if v = VerbosityWarning L then ''WARN''
      else if v = VerbosityInfo L then ''INFO''
      else if v = VerbosityDebug L then ''DEBUG''
      else if v = VerbosityTrace L then ''TRACE''
      else [])"

subsection \<open>Records and configuration\<close>

text \<open>
  \<^verbatim>\<open>boost::posix_time::ptime\<close> as far as the formatter reads it. A \<^verbatim>\<open>ptime\<close> holds a
  calendar date and a time of day, so each of the five fields read here is below 100.
\<close>

record ptime =
  year :: nat
  month :: nat
  day :: nat
  hours :: nat
  minutes :: nat
  seconds :: nat

text \<open>
  The attribute values of one log record, after the attribute keywords declared at the top of
  the file. Severity and channel come from the severity-channel logger, thread name and time
  stamp from the global attributes, the message from the call site; \<^verbatim>\<open>Prefix\<close> and
  \<^verbatim>\<open>Suffix\<close> are attributes a record may lack, which is what \<^verbatim>\<open>has_attr\<close> tests.
\<close>

record log_record =
  severity :: int
  channel :: string
  threadName :: string
  timestamp :: ptime
  prefix :: "string option"
  suffix :: "string option"
  message :: string

text \<open>
  \<^verbatim>\<open>struct LoggingOptions\<close> (declared in \<^verbatim>\<open>Log.h\<close>): the fields \<^verbatim>\<open>setupLogging\<close> reads.
  The channel lists are \<^verbatim>\<open>std::vector<std::string>\<close>.
\<close>

record LoggingOptions =
  verbosity :: int
  includeChannels :: "string list"
  excludeChannels :: "string list"
  vmTrace :: bool

subsection \<open>The sink filter\<close>

text \<open>
  Modelled from the spec: the helper template \<^verbatim>\<open>contains(container, value)\<close> lives in
  \<^verbatim>\<open>CommonData.h\<close>, which is not among the sources; the specification reads it as
  membership of the value in the container.
\<close>

definition contains :: "'a list \<Rightarrow> 'a \<Rightarrow> bool" where
  "contains t v = (v \<in> set t)"

text \<open>
  The lambda handed to \<^verbatim>\<open>sink->set_filter\<close>, with the options it captured by value.
\<close>

definition sink_filter :: "LoggingOptions \<Rightarrow> log_record \<Rightarrow> bool" where
  "sink_filter options attrs =
     (if severity attrs > verbosity options then False
      else
        let messageChannel = channel attrs in
          (includeChannels options = [] \<or> contains (includeChannels options) messageChannel) \<and>
          \<not> contains (excludeChannels options) messageChannel)"

subsection \<open>The formatting stream\<close>

text \<open>
  What the formatter uses of \<^verbatim>\<open>boost::log::formatting_ostream\<close>: the text written so far,
  the field width set by \<^verbatim>\<open>std::setw\<close> and whether \<^verbatim>\<open>std::left\<close> was applied. Writing a
  string pads it with spaces up to the field width (after the string when the stream is
  left-adjusted, before it otherwise) and resets the width to zero; the adjustment stays.
\<close>

record formatting_ostream =
  written :: string
  width :: nat
  left_adjusted :: bool

definition std_setw :: "nat \<Rightarrow> formatting_ostream \<Rightarrow> formatting_ostream" where
  "std_setw n strm = strm\<lparr>width := n\<rparr>"

definition std_left :: "formatting_ostream \<Rightarrow> formatting_ostream" where
  "std_left strm = strm\<lparr>left_adjusted := True\<rparr>"

definition put :: "string \<Rightarrow> formatting_ostream \<Rightarrow> formatting_ostream" where
  "put s strm =
     (let fill = replicate (width strm - length s) CHR '' '' in
        strm\<lparr>written := written strm @ (if left_adjusted strm then s @ fill else fill @ s),
             width := 0\<rparr>)"

text \<open>
  A chain \<^verbatim>\<open>strm << a << b << c\<close> applies its manipulators and insertions from left to
  right.
\<close>

definition chain :: "(formatting_ostream \<Rightarrow> formatting_ostream) list \<Rightarrow>
    formatting_ostream \<Rightarrow> formatting_ostream" where
  "chain ops strm = fold (\<lambda>op s. op s) ops strm"

text \<open>
  The stream a sink front end hands to its formatter: empty, no width, default adjustment.
\<close>

definition fresh_stream :: formatting_ostream where
  "fresh_stream = \<lparr>written = [], width = 0, left_adjusted = False\<rparr>"

subsection \<open>The formatter\<close>

text \<open>
  The colour macros \<^verbatim>\<open>EthViolet\<close>, \<^verbatim>\<open>EthNavy\<close> and \<^verbatim>\<open>EthReset\<close> are string literals
  defined in a header that is not among the sources; they are a parameter of the model.
\<close>

record terminal_colours =
  EthViolet :: string
  EthNavy :: string
  EthReset :: string

text \<open>
  \<^verbatim>\<open>format_date_time(timestamp, "%m-%d %H:%M:%S")\<close>: month, day, hours, minutes and seconds,
  two decimal digits each.
\<close>

definition digit_char :: "nat \<Rightarrow> char" where
  "digit_char d = ''0123456789'' ! (d mod 10)"

definition two_digits :: "nat \<Rightarrow> string" where
  "two_digits n = [digit_char (n div 10), digit_char n]"

definition format_date_time :: "ptime \<Rightarrow> string" where
  "format_date_time t =
     two_digits (month t) @ ''-'' @ two_digits (day t) @ '' '' @
     two_digits (hours t) @ '':'' @ two_digits (minutes t) @ '':'' @ two_digits (seconds t)"

text \<open>
  \<^verbatim>\<open>g_timestampFormatter\<close>: the stream expression
  \<^verbatim>\<open>stream << EthViolet << format_date_time(...) << EthReset " "\<close> applied to a record.
\<close>

definition g_timestampFormatter ::
    "terminal_colours \<Rightarrow> log_record \<Rightarrow> formatting_ostream \<Rightarrow> formatting_ostream" where
  "g_timestampFormatter C rec strm =
     chain [put (EthViolet C), put (format_date_time (timestamp rec)),
            put (EthReset C @ '' '')] strm"

text \<open>
  \<^verbatim>\<open>void formatter(record_view const& _rec, formatting_ostream& _strm)\<close>, statement by
  statement. \<^verbatim>\<open>has_attr(prefix)\<close> and \<^verbatim>\<open>has_attr(suffix)\<close> are the tests for \<open>Some\<close>.
\<close>

definition formatter ::
    "terminal_colours \<Rightarrow> verbosity_levels \<Rightarrow> log_record \<Rightarrow> formatting_ostream \<Rightarrow>
     formatting_ostream" where
  "formatter C L rec strm =
     (let
        strm1 = chain [std_setw 5, std_left, put (verbosityToString L (severity rec)),
                       put '' ''] strm;
        strm2 = g_timestampFormatter C rec strm1;
        strm3 = chain [put (EthNavy C), std_setw 4, std_left, put (threadName rec),
                       put (EthReset C @ '' '')] strm2;
        strm4 = chain [std_setw 6, std_left, put (channel rec), put '' ''] strm3;
        strm5 = (case prefix rec of
                   Some p \<Rightarrow> chain [put (EthNavy C), put p, put (EthReset C @ '' '')] strm4
                 | None \<Rightarrow> strm4);
        strm6 = put (message rec) strm5
      in
        case suffix rec of
          Some s \<Rightarrow> chain [put ('' '' @ EthNavy C), put s, put (EthReset C)] strm6
        | None \<Rightarrow> strm6)"

text \<open>
  The text of a record: what the formatter leaves in a fresh stream.
\<close>

definition formatted :: "terminal_colours \<Rightarrow> verbosity_levels \<Rightarrow> log_record \<Rightarrow> string" where
  "formatted C L rec = written (formatter C L rec fresh_stream)"

subsection \<open>Thread names\<close>

text \<open>
  Threads are identified by numbers. \<^verbatim>\<open>ThreadLocalLogName::m_name\<close> is a
  \<^verbatim>\<open>boost::thread_specific_ptr<std::string>\<close>: every thread has its own pointer, null
  (\<open>None\<close>) until that thread resets it. The constructor resets the pointer of the thread
  that runs it.
\<close>

type_synonym thread_id = nat

definition ThreadLocalLogName :: "thread_id \<Rightarrow> string \<Rightarrow> thread_id \<Rightarrow> string option" where
  "ThreadLocalLogName constructing_thread name = Map.empty(constructing_thread \<mapsto> name)"

text \<open>
  The two thread name functions are compiled in three ways: with \<^verbatim>\<open>__GLIBC__\<close> defined,
  with \<^verbatim>\<open>__APPLE__\<close> defined, or with neither.
\<close>

datatype platform = Glibc | Apple | Other

text \<open>
  \<^verbatim>\<open>_n.c_str()\<close> hands over a C string, and \<^verbatim>\<open>return buffer\<close> builds the result from
  one: the bytes before the first null byte.
\<close>

definition c_str :: "string \<Rightarrow> string" where
  "c_str s = takeWhile (\<lambda>c. c \<noteq> CHR 0x00) s"

subsection \<open>Process state, set-up and the trace flag\<close>

text \<open>
  What \<^verbatim>\<open>setupLogging\<close> changes in the logging core: the sinks added (each is characterised
  by the options its filter captured; all share the formatter and write to standard output),
  the names of the global attributes and whether the exception handler is installed.
\<close>

record logging_core =
  sinks :: "LoggingOptions list"
  global_attributes :: "string set"
  exception_handler :: bool

text \<open>
  The globals of the file, the name the operating system keeps for each thread, and the two
  output streams. Standard output is kept as the list of record texts handed to it, in the
  order written.
\<close>

record program_state =
  g_logThreadName :: "thread_id \<Rightarrow> string option"
  g_vmTraceEnabled :: bool
  pthread_name :: "thread_id \<Rightarrow> string"
  core :: logging_core
  cout :: "string list"
  cerr :: string

text \<open>
  The state after static initialisation, which the main thread runs:
  \<^verbatim>\<open>ThreadLocalLogName g_logThreadName("main")\<close> and
  \<^verbatim>\<open>std::atomic<bool> g_vmTraceEnabled{false}\<close>. The names the operating system has given
  the threads are a parameter.
\<close>

definition initial_state :: "thread_id \<Rightarrow> (thread_id \<Rightarrow> string) \<Rightarrow> program_state" where
  "initial_state main_thread os_names =
     \<lparr>g_logThreadName = ThreadLocalLogName main_thread ''main'',
      g_vmTraceEnabled = False,
      pthread_name = os_names,
      core = \<lparr>sinks = [], global_attributes = {}, exception_handler = False\<rparr>,
      cout = [],
      cerr = []\<rparr>"

text \<open>
  The operating system's \<^verbatim>\<open>pthread_setname_np\<close> and \<^verbatim>\<open>pthread_getname_np\<close>, for the
  calling thread. The system keeps at most \<open>limit\<close> bytes of a name (15 with glibc on Linux,
  63 on Apple systems); a longer name is refused with an error code and the name kept so far
  stays. Reading gives the name kept; the buffer of 127 bytes is longer than any of them.
\<close>

definition pthread_setname_np ::
    "nat \<Rightarrow> thread_id \<Rightarrow> string \<Rightarrow> program_state \<Rightarrow> program_state" where
  "pthread_setname_np limit t name st =
     (if length name \<le> limit then st\<lparr>pthread_name := (pthread_name st)(t := name)\<rparr> else st)"

definition pthread_getname_np :: "thread_id \<Rightarrow> program_state \<Rightarrow> string" where
  "pthread_getname_np t st = pthread_name st t"

text \<open>
  \<^verbatim>\<open>std::string getThreadName()\<close>, with its two preprocessor branches. The first argument
  is the build, the second the calling thread.
\<close>

definition getThreadName :: "platform \<Rightarrow> thread_id \<Rightarrow> program_state \<Rightarrow> string" where
  "getThreadName p t st =
     (if p = Glibc \<or> p = Apple then c_str (pthread_getname_np t st)
      else (case g_logThreadName st t of Some name \<Rightarrow> name | None \<Rightarrow> ''<unknown>''))"

text \<open>
  \<^verbatim>\<open>void setThreadName(std::string const& _n)\<close>, with its three preprocessor branches.
  The result of \<^verbatim>\<open>pthread_setname_np\<close> is not looked at.
\<close>

definition setThreadName ::
    "platform \<Rightarrow> thread_id \<Rightarrow> string \<Rightarrow> program_state \<Rightarrow> program_state" where
  "setThreadName p t n st =
     (case p of
        Glibc \<Rightarrow> pthread_setname_np 15 t (c_str n) st
      | Apple \<Rightarrow> pthread_setname_np 63 t (c_str n) st
      | Other \<Rightarrow> st\<lparr>g_logThreadName := (g_logThreadName st)(t \<mapsto> n)\<rparr>)"

text \<open>
  \<^verbatim>\<open>void setupLogging(LoggingOptions const& _options)\<close>: a new sink with the filter over
  the captured options is added to the core, the two global attributes are registered, the
  exception handler is installed, and the trace flag is assigned.
\<close>

definition setupLogging :: "LoggingOptions \<Rightarrow> program_state \<Rightarrow> program_state" where
  "setupLogging options st =
     st\<lparr>core := (core st)
           \<lparr>sinks := sinks (core st) @ [options],
            global_attributes := insert ''TimeStamp'' (insert ''ThreadName''
              (global_attributes (core st))),
            exception_handler := True\<rparr>,
        g_vmTraceEnabled := vmTrace options\<rparr>"

definition isVmTraceEnabled :: "program_state \<Rightarrow> bool" where
  "isVmTraceEnabled st = g_vmTraceEnabled st"

text \<open>
  The calls a program can make into the file, and the effect of a sequence of them (from any
  threads, in the order they take effect) in a given build. The two queries leave the state as
  it is.
\<close>

datatype call =
    SetThreadName thread_id string
  | GetThreadName thread_id
  | SetupLogging LoggingOptions
  | IsVmTraceEnabled

fun exec :: "platform \<Rightarrow> call \<Rightarrow> program_state \<Rightarrow> program_state" where
  "exec p (SetThreadName t n) st = setThreadName p t n st"
| "exec p (GetThreadName t) st = st"
| "exec p (SetupLogging options) st = setupLogging options st"
| "exec p IsVmTraceEnabled st = st"

definition run :: "platform \<Rightarrow> call list \<Rightarrow> program_state \<Rightarrow> program_state" where
  "run p cs st = fold (exec p) cs st"

definition is_setup :: "call \<Rightarrow> bool" where
  "is_setup c = (case c of SetupLogging _ \<Rightarrow> True | _ \<Rightarrow> False)"

definition names_thread :: "thread_id \<Rightarrow> call \<Rightarrow> bool" where
  "names_thread t c = (case c of SetThreadName t' _ \<Rightarrow> t' = t | _ \<Rightarrow> False)"

subsection \<open>Delivery of records and the exception handler\<close>








subsection \<open>The asynchronous sink\<close>

text \<open>
  Modelled from the spec: the queue and the worker of the asynchronous sink are Boost.Log's
  (\<^verbatim>\<open>asynchronous_sink\<close>, which \<^verbatim>\<open>log_sink\<close> selects under \<^verbatim>\<open>NDEBUG\<close>) and not among
  the sources. By section 4.5 the calling thread enqueues the record into an internal queue,
  and a dedicated background worker dequeues in submission order and performs the write; by
  section 2 the filter decides before that. The state is the queue, each record with the
  thread that submitted it, and the texts written to the stream so far.
\<close>

record async_sink =
  queued :: "(thread_id \<times> log_record) list"
  written_out :: "string list"

definition submit :: "LoggingOptions \<Rightarrow> thread_id \<Rightarrow> log_record \<Rightarrow> async_sink \<Rightarrow> async_sink" where
  "submit options t rec s =
     (if sink_filter options rec then s\<lparr>queued := queued s @ [(t, rec)]\<rparr> else s)"

definition worker :: "terminal_colours \<Rightarrow> verbosity_levels \<Rightarrow> async_sink \<Rightarrow> async_sink" where
  "worker C L s =
     (case queued s of
        [] \<Rightarrow> s
      | (t, rec) # rest \<Rightarrow> s\<lparr>queued := rest, written_out := written_out s @ [formatted C L rec]\<rparr>)"

text \<open>
  A schedule is any interleaving of submissions, by any threads, with steps of the worker.
\<close>

datatype async_step = Submit thread_id log_record | Worker

fun async_exec ::
    "LoggingOptions \<Rightarrow> terminal_colours \<Rightarrow> verbosity_levels \<Rightarrow> async_step \<Rightarrow> async_sink \<Rightarrow>
     async_sink" where
  "async_exec options C L (Submit t rec) s = submit options t rec s"
| "async_exec options C L Worker s = worker C L s"

definition async_run ::
    "LoggingOptions \<Rightarrow> terminal_colours \<Rightarrow> verbosity_levels \<Rightarrow> async_step list \<Rightarrow> async_sink" where
  "async_run options C L steps =
     fold (async_exec options C L) steps \<lparr>queued = [], written_out = []\<rparr>"

subsection \<open>Notions used to state the properties\<close>

text \<open>
  A string written left-adjusted in a field of \<open>n\<close> columns, and the two optional segments
  of a line.
\<close>

definition left_aligned :: "nat \<Rightarrow> string \<Rightarrow> string" where
  "left_aligned n s = s @ replicate (n - length s) CHR '' ''"

definition prefix_segment :: "terminal_colours \<Rightarrow> string option \<Rightarrow> string" where
  "prefix_segment C p = (case p of Some x \<Rightarrow> EthNavy C @ x @ EthReset C @ '' '' | None \<Rightarrow> [])"

definition suffix_segment :: "terminal_colours \<Rightarrow> string option \<Rightarrow> string" where
  "suffix_segment C s = (case s of Some x \<Rightarrow> '' '' @ EthNavy C @ x @ EthReset C | None \<Rightarrow> [])"

text \<open>
  The colour codes for thread name, prefix and suffix start with the character \<open>e\<close>, which
  is not the space (for the ANSI sequences \<open>e\<close> is the escape character).
\<close>

definition starts_with :: "char \<Rightarrow> string \<Rightarrow> bool" where
  "starts_with e s = (case s of [] \<Rightarrow> False | x # _ \<Rightarrow> x = e)"

definition escaped_by :: "char \<Rightarrow> terminal_colours \<Rightarrow> bool" where
  "escaped_by e C = (e \<noteq> CHR '' '' \<and> starts_with e (EthNavy C) \<and> starts_with e (EthReset C))"

text \<open>
  A record whose fields cannot be mistaken for the separators of a line: no space in thread
  name and channel, and the character \<open>e\<close> neither in the thread name, nor in the prefix, nor
  in the message.
\<close>

definition plain_fields :: "char \<Rightarrow> log_record \<Rightarrow> bool" where
  "plain_fields e rec =
     (CHR '' '' \<notin> set (threadName rec) \<and> e \<notin> set (threadName rec) \<and>
      CHR '' '' \<notin> set (channel rec) \<and>
      (case prefix rec of Some p \<Rightarrow> e \<notin> set p | None \<Rightarrow> True) \<and>
      e \<notin> set (message rec))"

text \<open>
  Neither the colour codes nor the text fields of the record contain a line feed.
\<close>

definition no_line_feed :: "terminal_colours \<Rightarrow> log_record \<Rightarrow> bool" where
  "no_line_feed C rec =
     (CHR 0x0A \<notin> set (EthViolet C) \<union> set (EthNavy C) \<union> set (EthReset C) \<and>
      CHR 0x0A \<notin> set (threadName rec) \<union> set (channel rec) \<union> set (message rec) \<and>
      (case prefix rec of Some p \<Rightarrow> CHR 0x0A \<notin> set p | None \<Rightarrow> True) \<and>
      (case suffix rec of Some s \<Rightarrow> CHR 0x0A \<notin> set s | None \<Rightarrow> True))"




text \<open>
  The submissions of a schedule in their order, those of them the filter accepts, and the
  records of one thread in a list of submissions.
\<close>

fun submissions :: "async_step list \<Rightarrow> (thread_id \<times> log_record) list" where
  "submissions [] = []"
| "submissions (Submit t rec # steps) = (t, rec) # submissions steps"
| "submissions (Worker # steps) = submissions steps"

definition accepted_submissions ::
    "LoggingOptions \<Rightarrow> async_step list \<Rightarrow> (thread_id \<times> log_record) list" where
  "accepted_submissions options steps =
     filter (\<lambda>(t, rec). sink_filter options rec) (submissions steps)"

definition of_thread :: "thread_id \<Rightarrow> (thread_id \<times> log_record) list \<Rightarrow> log_record list" where
  "of_thread t xs = map snd (filter (\<lambda>(u, rec). u = t) xs)"

subsection \<open>Concrete instances\<close>

text \<open>
  Values used for the concrete instances below: the levels numbered from 0 in the order of
  their declaration, the ANSI escape sequences for the three colours, a time stamp and a
  record.
\<close>

definition levels0 :: verbosity_levels where
  "levels0 = \<lparr>VerbosityError = 0, VerbosityWarning = 1, VerbosityInfo = 2, VerbosityDebug = 3,
     VerbosityTrace = 4\<rparr>"

definition ansi_colours :: terminal_colours where
  "ansi_colours = \<lparr>EthViolet = CHR 0x1B # ''[35m'', EthNavy = CHR 0x1B # ''[34m'',
     EthReset = CHR 0x1B # ''[0m''\<rparr>"

definition pi_day :: ptime where
  "pi_day = \<lparr>year = 2019, month = 3, day = 14, hours = 15, minutes = 9, seconds = 26\<rparr>"

definition boom :: log_record where
  "boom = \<lparr>severity = 0, channel = ''net'', threadName = ''main'', timestamp = pi_day,
     prefix = None, suffix = None, message = ''boom''\<rparr>"

definition info_all :: LoggingOptions where
  "info_all = \<lparr>verbosity = 2, includeChannels = [], excludeChannels = [], vmTrace = False\<rparr>"

definition info_no_net :: LoggingOptions where
  "info_no_net = \<lparr>verbosity = 2, includeChannels = [], excludeChannels = [''net''],
     vmTrace = True\<rparr>"


definition aleth_names :: "thread_id \<Rightarrow> string" where
  "aleth_names t = ''aleth''"

section \<open>Properties\<close>

subsection \<open>Severity labels\<close>

text \<open>
  Claim C6. The label function is total on the integers: the five levels are rendered as
  ERROR, WARN, INFO, DEBUG and TRACE, and every other integer is rendered as the empty string.
\<close>

theorem verbosityToString_table:
  assumes "distinct_levels L"
  shows "verbosityToString L (VerbosityError L) = ''ERROR'' \<and>
         verbosityToString L (VerbosityWarning L) = ''WARN'' \<and>
         verbosityToString L (VerbosityInfo L) = ''INFO'' \<and>
         verbosityToString L (VerbosityDebug L) = ''DEBUG'' \<and>
         verbosityToString L (VerbosityTrace L) = ''TRACE'' \<and>
         (\<forall>v. v \<notin> {VerbosityError L, VerbosityWarning L, VerbosityInfo L, VerbosityDebug L,
                  VerbosityTrace L} \<longrightarrow> verbosityToString L v = [])"
  using assms by (auto simp: verbosityToString_def distinct_levels_def)

theorem verbosityToString_table_witness:
  "verbosityToString levels0 0 = ''ERROR'' \<and> verbosityToString levels0 1 = ''WARN'' \<and>
   verbosityToString levels0 2 = ''INFO'' \<and> verbosityToString levels0 3 = ''DEBUG'' \<and>
   verbosityToString levels0 4 = ''TRACE'' \<and> verbosityToString levels0 5 = [] \<and>
   verbosityToString levels0 (- 1) = []"
proof -
  have d: "distinct_levels levels0"
    by (simp add: distinct_levels_def levels0_def)
  from verbosityToString_table [OF d] show ?thesis
    by (simp add: levels0_def)
qed

subsection \<open>The sink filter\<close>

text \<open>
  Claim C1. The filter accepts a record exactly when its severity is at most the verbosity
  threshold, the include list is empty or holds its channel, and the exclude list does not hold
  its channel. Hence a channel on both lists is rejected; and with verbosity Info, no include
  channel and the exclude channel net, a Warning record on net is rejected, a Warning record on
  rpc is accepted and a Trace record on rpc is rejected.
\<close>

theorem sink_filter_decision:
  "(sink_filter options rec \<longleftrightarrow>
      severity rec \<le> verbosity options \<and>
      (includeChannels options = [] \<or> channel rec \<in> set (includeChannels options)) \<and>
      channel rec \<notin> set (excludeChannels options)) \<and>
   (channel rec \<in> set (includeChannels options) \<and> channel rec \<in> set (excludeChannels options)
      \<longrightarrow> \<not> sink_filter options rec) \<and>
   (ordered_levels L \<longrightarrow>
      (let cfg = \<lparr>verbosity = VerbosityInfo L, includeChannels = [],
                  excludeChannels = [''net''], vmTrace = t\<rparr>
       in \<not> sink_filter cfg (rec\<lparr>channel := ''net'', severity := VerbosityWarning L\<rparr>) \<and>
          sink_filter cfg (rec\<lparr>channel := ''rpc'', severity := VerbosityWarning L\<rparr>) \<and>
          \<not> sink_filter cfg (rec\<lparr>channel := ''rpc'', severity := VerbosityTrace L\<rparr>)))"
  by (auto simp: sink_filter_def contains_def ordered_levels_def Let_def)

theorem sink_filter_decision_witness:
  "sink_filter \<lparr>verbosity = 2, includeChannels = [''rpc'', ''net''], excludeChannels = [''net''],
       vmTrace = False\<rparr> (boom\<lparr>channel := ''rpc''\<rparr>) \<and>
   \<not> sink_filter \<lparr>verbosity = 2, includeChannels = [''rpc'', ''net''], excludeChannels = [''net''],
       vmTrace = False\<rparr> boom \<and>
   \<not> sink_filter \<lparr>verbosity = 2, includeChannels = [], excludeChannels = [''net''],
       vmTrace = False\<rparr> (boom\<lparr>channel := ''net'', severity := 1\<rparr>) \<and>
   sink_filter \<lparr>verbosity = 2, includeChannels = [], excludeChannels = [''net''],
       vmTrace = False\<rparr> (boom\<lparr>channel := ''rpc'', severity := 1\<rparr>) \<and>
   \<not> sink_filter \<lparr>verbosity = 2, includeChannels = [], excludeChannels = [''net''],
       vmTrace = False\<rparr> (boom\<lparr>channel := ''rpc'', severity := 4\<rparr>)"
proof -
  let ?both = "\<lparr>verbosity = 2, includeChannels = [''rpc'', ''net''], excludeChannels = [''net''],
       vmTrace = False\<rparr>"
  have ordered: "ordered_levels levels0"
    by (simp add: ordered_levels_def levels0_def)
  have rpc: "sink_filter ?both (boom\<lparr>channel := ''rpc''\<rparr>)"
    using sink_filter_decision [of ?both "boom\<lparr>channel := ''rpc''\<rparr>" levels0 False]
    by (simp add: boom_def)
  have net: "\<not> sink_filter ?both boom"
    using sink_filter_decision [of ?both boom levels0 False]
    by (simp add: boom_def)
  have scenario: "ordered_levels levels0 \<longrightarrow>
      (let cfg = \<lparr>verbosity = VerbosityInfo levels0, includeChannels = [],
                  excludeChannels = [''net''], vmTrace = False\<rparr>
       in \<not> sink_filter cfg (boom\<lparr>channel := ''net'', severity := VerbosityWarning levels0\<rparr>) \<and>
          sink_filter cfg (boom\<lparr>channel := ''rpc'', severity := VerbosityWarning levels0\<rparr>) \<and>
          \<not> sink_filter cfg (boom\<lparr>channel := ''rpc'', severity := VerbosityTrace levels0\<rparr>))"
    using sink_filter_decision [of ?both boom levels0 False] by blast
  from scenario ordered rpc net show ?thesis
    by (simp add: levels0_def Let_def)
qed

text \<open>
  Claim C2. The filter is monotone in the severity: for fixed options and a fixed record, if it
  accepts the record with severity \<open>s2\<close> it accepts it with any smaller severity \<open>s1\<close>.
\<close>

theorem sink_filter_monotone:
  assumes "s1 < s2"
    and "sink_filter options (rec\<lparr>severity := s2\<rparr>)"
  shows "sink_filter options (rec\<lparr>severity := s1\<rparr>)"
  using assms by (auto simp: sink_filter_def Let_def split: if_splits)

theorem sink_filter_monotone_witness:
  "sink_filter info_no_net (boom\<lparr>channel := ''rpc'', severity := 1\<rparr>)"
proof -
  have accepted_at_2: "sink_filter info_no_net (boom\<lparr>channel := ''rpc''\<rparr>\<lparr>severity := 2\<rparr>)"
    by (simp add: sink_filter_def contains_def boom_def info_no_net_def)
  have "(1::int) < 2"
    by simp
  from sink_filter_monotone [OF this accepted_at_2] show ?thesis
    by simp
qed

subsection \<open>The formatter\<close>

lemma formatted_eq:
  "formatted C L rec =
     left_aligned 5 (verbosityToString L (severity rec)) @ '' '' @
     EthViolet C @ format_date_time (timestamp rec) @ EthReset C @ '' '' @
     EthNavy C @ left_aligned 4 (threadName rec) @ EthReset C @ '' '' @
     left_aligned 6 (channel rec) @ '' '' @
     prefix_segment C (prefix rec) @ message rec @ suffix_segment C (suffix rec)"
  by (simp add: formatted_def formatter_def g_timestampFormatter_def chain_def put_def
      std_setw_def std_left_def fresh_stream_def Let_def left_aligned_def prefix_segment_def
      suffix_segment_def split: option.splits)

text \<open>
  The formatter appends the same text to any stream, whatever the stream holds already and
  whatever its width and adjustment are: the first statement sets both before it inserts, and
  every insertion leaves the width at zero.
\<close>

lemma formatter_appends:
  "written (formatter C L rec strm) = written strm @ formatted C L rec \<and>
   width (formatter C L rec strm) = 0"
  by (cases "prefix rec"; cases "suffix rec")
     (simp_all add: formatted_def formatter_def g_timestampFormatter_def chain_def put_def
      std_setw_def std_left_def fresh_stream_def Let_def)

lemma length_label: "length (left_aligned 5 (verbosityToString L v)) = 5"
  by (simp add: left_aligned_def verbosityToString_def)

lemma label_no_space: "CHR '' '' \<notin> set (verbosityToString L v)"
  by (simp add: verbosityToString_def)

lemma label_no_line_feed: "CHR 0x0A \<notin> set (verbosityToString L v)"
  by (simp add: verbosityToString_def)

lemma length_format_date_time: "length (format_date_time t) = 14"
  by (simp add: format_date_time_def two_digits_def)

lemma digit_char_digit: "digit_char d \<in> set ''0123456789''"
  unfolding digit_char_def by (rule nth_mem) simp

lemma digit_char_no_line_feed: "digit_char d \<noteq> CHR 0x0A"
  using digit_char_digit [of d] by auto

lemma date_no_line_feed: "CHR 0x0A \<notin> set (format_date_time t)"
  using digit_char_no_line_feed [symmetric]
  by (simp add: format_date_time_def two_digits_def)

lemma length_differs: "length xs \<noteq> length ys \<Longrightarrow> xs \<noteq> ys"
  by auto

lemma replicate_3: "replicate 3 x = [x, x, x]"
  by (simp add: numeral_3_eq_3)

lemma set_left_aligned: "set (left_aligned n s) \<subseteq> insert CHR '' '' (set s)"
  by (auto simp: left_aligned_def)

lemma takeWhile_padding:
  "CHR '' '' \<notin> set s \<Longrightarrow> takeWhile (\<lambda>c. c \<noteq> CHR '' '') (s @ replicate k CHR '' '') = s"
  by (induction s) (auto simp: takeWhile_replicate)

lemma left_aligned_inj:
  assumes "CHR '' '' \<notin> set a" and "CHR '' '' \<notin> set b" and "left_aligned n a = left_aligned m b"
  shows "a = b"
proof -
  have "takeWhile (\<lambda>c. c \<noteq> CHR '' '') (left_aligned n a) =
        takeWhile (\<lambda>c. c \<noteq> CHR '' '') (left_aligned m b)"
    using assms(3) by simp
  then show ?thesis
    using assms(1,2) by (simp add: left_aligned_def takeWhile_padding)
qed

lemma left_aligned_then_space:
  "left_aligned n s @ CHR '' '' # xs = s @ CHR '' '' # replicate (n - length s) CHR '' '' @ xs"
  by (simp add: left_aligned_def replicate_app_Cons_same)

text \<open>
  A list is cut in one way only at the first occurrence of an element.
\<close>

lemma split_at_first:
  assumes "x \<notin> set xs" and "x \<notin> set xs'" and "xs @ x # ys = xs' @ x # ys'"
  shows "xs = xs' \<and> ys = ys'"
proof -
  have "takeWhile (\<lambda>c. c \<noteq> x) (xs @ x # ys) = xs"
    using assms(1) by (auto simp: takeWhile_tail)
  moreover have "takeWhile (\<lambda>c. c \<noteq> x) (xs' @ x # ys') = xs'"
    using assms(2) by (auto simp: takeWhile_tail)
  ultimately have "xs = xs'"
    using assms(3) by simp
  with assms(3) show ?thesis
    by simp
qed

lemma message_suffix_inj:
  assumes e: "e \<noteq> CHR '' ''" "e \<notin> set m1" "e \<notin> set m2"
    and N: "EthNavy C = e # n"
    and eq: "m1 @ suffix_segment C s1 = m2 @ suffix_segment C s2"
  shows "m1 = m2 \<and> s1 = s2"
proof (cases s1)
  case None
  note s1 = this
  show ?thesis
  proof (cases s2)
    case None
    with s1 eq show ?thesis by (simp add: suffix_segment_def)
  next
    case (Some y)
    with s1 eq N have "m1 = m2 @ '' '' @ e # n @ y @ EthReset C"
      by (simp add: suffix_segment_def)
    then have "e \<in> set m1" by simp
    with e show ?thesis by simp
  qed
next
  case (Some x)
  note s1 = this
  show ?thesis
  proof (cases s2)
    case None
    with s1 eq N have "m2 = m1 @ '' '' @ e # n @ x @ EthReset C"
      by (simp add: suffix_segment_def)
    then have "e \<in> set m2" by simp
    with e show ?thesis by simp
  next
    case (Some y)
    with s1 eq N
    have cut: "(m1 @ '' '') @ e # (n @ x @ EthReset C) = (m2 @ '' '') @ e # (n @ y @ EthReset C)"
      by (simp add: suffix_segment_def)
    have a: "e \<notin> set (m1 @ '' '')" and b: "e \<notin> set (m2 @ '' '')"
      using e by auto
    from cut have "m1 @ '' '' = m2 @ '' '' \<and> n @ x @ EthReset C = n @ y @ EthReset C"
      by (rule split_at_first [OF a b])
    with s1 Some show ?thesis by simp
  qed
qed

lemma tail_inj:
  assumes e: "e \<noteq> CHR '' ''" "e \<notin> set m1" "e \<notin> set m2"
    and p: "case p1 of Some p \<Rightarrow> e \<notin> set p | None \<Rightarrow> True"
           "case p2 of Some p \<Rightarrow> e \<notin> set p | None \<Rightarrow> True"
    and N: "EthNavy C = e # n" and R: "EthReset C = e # r"
    and eq: "prefix_segment C p1 @ m1 @ suffix_segment C s1 =
             prefix_segment C p2 @ m2 @ suffix_segment C s2"
  shows "p1 = p2 \<and> m1 = m2 \<and> s1 = s2"
proof -
  have no_start: "m @ suffix_segment C s \<noteq> e # xs" if "e \<notin> set m" for m s xs
    using that e(1) by (cases m; cases s) (auto simp: suffix_segment_def)
  show ?thesis
  proof (cases p1)
    case None
    note p1 = this
    show ?thesis
    proof (cases p2)
      case None
      with p1 eq have "m1 @ suffix_segment C s1 = m2 @ suffix_segment C s2"
        by (simp add: prefix_segment_def)
      from message_suffix_inj [OF e N this] p1 None show ?thesis by simp
    next
      case (Some y)
      with p1 eq N
      have "m1 @ suffix_segment C s1 =
          e # (n @ y @ EthReset C @ '' '' @ m2 @ suffix_segment C s2)"
        by (simp add: prefix_segment_def)
      with no_start [OF e(2)] show ?thesis by blast
    qed
  next
    case (Some x)
    note p1 = this
    show ?thesis
    proof (cases p2)
      case None
      with p1 eq N
      have "m2 @ suffix_segment C s2 =
          e # (n @ x @ EthReset C @ '' '' @ m1 @ suffix_segment C s1)"
        by (simp add: prefix_segment_def)
      with no_start [OF e(3)] show ?thesis by blast
    next
      case (Some y)
      with p1 eq N R
      have cut: "x @ e # (r @ '' '' @ m1 @ suffix_segment C s1) =
          y @ e # (r @ '' '' @ m2 @ suffix_segment C s2)"
        by (simp add: prefix_segment_def)
      have a: "e \<notin> set x" and b: "e \<notin> set y"
        using p p1 Some by simp_all
      from cut
      have "x = y \<and>
          r @ '' '' @ m1 @ suffix_segment C s1 = r @ '' '' @ m2 @ suffix_segment C s2"
        by (rule split_at_first [OF a b])
      then have xy: "x = y" and "m1 @ suffix_segment C s1 = m2 @ suffix_segment C s2"
        by simp_all
      from message_suffix_inj [OF e N this(2)] xy p1 Some show ?thesis by simp
    qed
  qed
qed

text \<open>
  Two records with plain fields that are rendered alike have the same label, the same date
  text, thread name, channel, prefix, message and suffix.
\<close>

lemma formatted_inj:
  assumes esc: "escaped_by e C"
    and pl: "plain_fields e r1" "plain_fields e r2"
    and eq: "formatted C L r1 = formatted C L r2"
  shows "verbosityToString L (severity r1) = verbosityToString L (severity r2) \<and>
         format_date_time (timestamp r1) = format_date_time (timestamp r2) \<and>
         threadName r1 = threadName r2 \<and> channel r1 = channel r2 \<and>
         prefix r1 = prefix r2 \<and> message r1 = message r2 \<and> suffix r1 = suffix r2"
proof -
  from esc obtain n r where N: "EthNavy C = e # n" and R: "EthReset C = e # r"
    and sp: "e \<noteq> CHR '' ''"
    by (auto simp: escaped_by_def starts_with_def split: list.splits)
  let ?tail = "\<lambda>rec. prefix_segment C (prefix rec) @ message rec @ suffix_segment C (suffix rec)"
  let ?chan = "\<lambda>rec. left_aligned 6 (channel rec) @ CHR '' '' # ?tail rec"
  let ?thr = "\<lambda>rec. left_aligned 4 (threadName rec) @ e # (r @ CHR '' '' # ?chan rec)"
  let ?ts = "\<lambda>rec. format_date_time (timestamp rec) @
      (EthReset C @ CHR '' '' # EthNavy C @ ?thr rec)"
  let ?lab = "\<lambda>rec. left_aligned 5 (verbosityToString L (severity rec))"
  have shape: "formatted C L rec = ?lab rec @ (CHR '' '' # EthViolet C @ ?ts rec)" for rec
    by (simp add: formatted_eq R)
  from eq
  have "?lab r1 @ (CHR '' '' # EthViolet C @ ?ts r1) = ?lab r2 @ (CHR '' '' # EthViolet C @ ?ts r2)"
    by (simp only: shape)
  then have lab: "?lab r1 = ?lab r2" and 1: "?ts r1 = ?ts r2"
    by (simp_all add: length_label)
  from left_aligned_inj [OF label_no_space label_no_space lab]
  have label: "verbosityToString L (severity r1) = verbosityToString L (severity r2)" .
  from 1 have ts: "format_date_time (timestamp r1) = format_date_time (timestamp r2)"
    and 2: "?thr r1 = ?thr r2"
    by (simp_all add: length_format_date_time)
  have a: "e \<notin> set (left_aligned 4 (threadName r1))"
    and b: "e \<notin> set (left_aligned 4 (threadName r2))"
    using pl sp set_left_aligned [of 4 "threadName r1"] set_left_aligned [of 4 "threadName r2"]
    by (auto simp: plain_fields_def)
  from 2
  have "left_aligned 4 (threadName r1) = left_aligned 4 (threadName r2) \<and>
      r @ CHR '' '' # ?chan r1 = r @ CHR '' '' # ?chan r2"
    by (rule split_at_first [OF a b])
  then have thr: "left_aligned 4 (threadName r1) = left_aligned 4 (threadName r2)"
    and 3: "?chan r1 = ?chan r2"
    by simp_all
  have thread: "threadName r1 = threadName r2"
    using left_aligned_inj [OF _ _ thr] pl by (simp add: plain_fields_def)
  from 3
  have cut: "channel r1 @ CHR '' '' # (replicate (6 - length (channel r1)) CHR '' '' @ ?tail r1) =
      channel r2 @ CHR '' '' # (replicate (6 - length (channel r2)) CHR '' '' @ ?tail r2)"
    by (simp only: left_aligned_then_space)
  have c: "CHR '' '' \<notin> set (channel r1)" and d: "CHR '' '' \<notin> set (channel r2)"
    using pl by (simp_all add: plain_fields_def)
  from cut
  have "channel r1 = channel r2 \<and>
      replicate (6 - length (channel r1)) CHR '' '' @ ?tail r1 =
      replicate (6 - length (channel r2)) CHR '' '' @ ?tail r2"
    by (rule split_at_first [OF c d])
  then have chan: "channel r1 = channel r2"
    and pad: "replicate (6 - length (channel r1)) CHR '' '' @ ?tail r1 =
      replicate (6 - length (channel r2)) CHR '' '' @ ?tail r2"
    by (rule conjunct1, rule conjunct2)
  from pad have 4: "?tail r1 = ?tail r2"
    by (simp add: chan)
  have "prefix r1 = prefix r2 \<and> message r1 = message r2 \<and> suffix r1 = suffix r2"
    using pl by (intro tail_inj [OF sp _ _ _ _ N R 4]) (simp_all add: plain_fields_def)
  with label ts thread chan show ?thesis by simp
qed

lemma formatted_no_line_feed:
  assumes "no_line_feed C rec"
  shows "CHR 0x0A \<notin> set (formatted C L rec)"
proof -
  have "CHR 0x0A \<notin> set (left_aligned n s)" if "CHR 0x0A \<notin> set s" for n s
    using that set_left_aligned [of n s] by auto
  with assms show ?thesis
    by (auto simp: formatted_eq no_line_feed_def label_no_line_feed date_no_line_feed
        prefix_segment_def suffix_segment_def split: option.splits)
qed

text \<open>
  The text of a record without prefix is not changed when the start of the message, up to a
  space, moves into a channel name of at least six characters, whatever the colours and the
  levels are.
\<close>

lemma formatted_collision:
  assumes "6 \<le> length c" and "prefix rec = None"
  shows "formatted C L (rec\<lparr>channel := c, message := x @ '' '' @ y\<rparr>) =
         formatted C L (rec\<lparr>channel := c @ '' '' @ x, message := y\<rparr>)"
  using assms by (simp add: formatted_eq left_aligned_def prefix_segment_def)

text \<open>
  Claim C3, as the code has it. The text of a record is the concatenation, in this order, of
  the severity label in a field of five columns, the date in the pattern month-day
  hours:minutes:seconds, the thread name in a field of four columns, the channel in a field of
  six columns, the prefix segment (present only with the prefix attribute), the message and the
  suffix segment (present only with the suffix attribute). The text has no line feed unless a
  field or a colour code has one. When the colour codes start with a character that is not the
  space, and neither thread name and channel contain a space nor thread name, prefix and message
  that character, the text determines label, date, thread name, channel, prefix, message and
  suffix.
\<close>

theorem formatted_field_order:
  "formatted C L rec =
     left_aligned 5 (verbosityToString L (severity rec)) @ '' '' @
     EthViolet C @ format_date_time (timestamp rec) @ EthReset C @ '' '' @
     EthNavy C @ left_aligned 4 (threadName rec) @ EthReset C @ '' '' @
     left_aligned 6 (channel rec) @ '' '' @
     prefix_segment C (prefix rec) @ message rec @ suffix_segment C (suffix rec) \<and>
   (no_line_feed C rec \<longrightarrow> CHR 0x0A \<notin> set (formatted C L rec)) \<and>
   (escaped_by e C \<and> plain_fields e rec \<and> plain_fields e rec' \<and>
    formatted C L rec = formatted C L rec' \<longrightarrow>
      verbosityToString L (severity rec) = verbosityToString L (severity rec') \<and>
      format_date_time (timestamp rec) = format_date_time (timestamp rec') \<and>
      threadName rec = threadName rec' \<and> channel rec = channel rec' \<and>
      prefix rec = prefix rec' \<and> message rec = message rec' \<and> suffix rec = suffix rec')"
  using formatted_eq [of C L rec] formatted_no_line_feed [of C rec L]
    formatted_inj [of e C rec rec' L]
  by blast

theorem formatted_field_order_witness:
  "escaped_by (CHR 0x1B) ansi_colours \<and> plain_fields (CHR 0x1B) boom \<and>
   plain_fields (CHR 0x1B) (boom\<lparr>severity := 0, timestamp := pi_day\<lparr>year := 2020\<rparr>\<rparr>) \<and>
   no_line_feed ansi_colours boom \<and>
   formatted ansi_colours levels0 boom =
     formatted ansi_colours levels0 (boom\<lparr>severity := 0, timestamp := pi_day\<lparr>year := 2020\<rparr>\<rparr>) \<and>
   CHR 0x0A \<notin> set (formatted ansi_colours levels0 boom) \<and>
   formatted ansi_colours levels0 boom =
     ''ERROR '' @ CHR 0x1B # ''[35m03-14 15:09:26'' @ CHR 0x1B # ''[0m '' @
     CHR 0x1B # ''[34mmain'' @ CHR 0x1B # ''[0m net    boom''"
proof -
  let ?rec' = "boom\<lparr>severity := 0, timestamp := pi_day\<lparr>year := 2020\<rparr>\<rparr>"
  have esc: "escaped_by (CHR 0x1B) ansi_colours"
    by (simp add: escaped_by_def starts_with_def ansi_colours_def)
  have plain: "plain_fields (CHR 0x1B) boom" "plain_fields (CHR 0x1B) ?rec'"
    by (simp_all add: plain_fields_def boom_def)
  have one_line: "no_line_feed ansi_colours boom"
    by (simp add: no_line_feed_def ansi_colours_def boom_def)
  have same: "formatted ansi_colours levels0 boom = formatted ansi_colours levels0 ?rec'"
    by (simp add: formatted_eq boom_def pi_day_def format_date_time_def)
  note order = formatted_field_order [of ansi_colours levels0 boom "CHR 0x1B" ?rec']
  from order one_line have no_lf: "CHR 0x0A \<notin> set (formatted ansi_colours levels0 boom)"
    by blast
  from order have "formatted ansi_colours levels0 boom =
     ''ERROR '' @ CHR 0x1B # ''[35m03-14 15:09:26'' @ CHR 0x1B # ''[0m '' @
     CHR 0x1B # ''[34mmain'' @ CHR 0x1B # ''[0m net    boom''"
    by (simp add: boom_def pi_day_def levels0_def ansi_colours_def verbosityToString_def
        left_aligned_def format_date_time_def two_digits_def digit_char_def
        prefix_segment_def suffix_segment_def replicate_3)
  with esc plain one_line same no_lf show ?thesis
    by (intro conjI)
qed

text \<open>
  The claim as it was stated fails. Two records that the filter accepts, with different
  channels and different messages, are rendered as the same text, so the fields cannot be
  read back from it; and the text of an accepted record whose message has a line feed is more
  than one line.
\<close>

theorem formatted_field_order_counterexample:
  "formatted ansi_colours levels0 (boom\<lparr>channel := ''abcdef'', message := ''g h''\<rparr>) =
   formatted ansi_colours levels0 (boom\<lparr>channel := ''abcdef g'', message := ''h''\<rparr>) \<and>
   sink_filter info_all (boom\<lparr>channel := ''abcdef'', message := ''g h''\<rparr>) \<and>
   sink_filter info_all (boom\<lparr>channel := ''abcdef g'', message := ''h''\<rparr>) \<and>
   channel (boom\<lparr>channel := ''abcdef'', message := ''g h''\<rparr>) \<noteq>
   channel (boom\<lparr>channel := ''abcdef g'', message := ''h''\<rparr>) \<and>
   message (boom\<lparr>channel := ''abcdef'', message := ''g h''\<rparr>) \<noteq>
   message (boom\<lparr>channel := ''abcdef g'', message := ''h''\<rparr>) \<and>
   sink_filter info_all (boom\<lparr>message := ''stack'' @ [CHR 0x0A] @ ''trace''\<rparr>) \<and>
   CHR 0x0A \<in> set (formatted ansi_colours levels0
     (boom\<lparr>message := ''stack'' @ [CHR 0x0A] @ ''trace''\<rparr>))"
  by (simp add: formatted_eq left_aligned_def prefix_segment_def sink_filter_def contains_def
      info_all_def boom_def)

text \<open>
  Claim C7. Whatever the other attributes are, the text of a record is a fixed head, then the
  prefix segment, the message and the suffix segment; a segment is non-empty exactly when its
  attribute is present. A prefix that is present and empty gives the two colour codes and the
  space, and a text different from that of the record without prefix; likewise for the suffix.
  The filter does not read either attribute.
\<close>

theorem optional_segments:
  "(\<exists>h. \<forall>p s. formatted C L (rec\<lparr>prefix := p, suffix := s\<rparr>) =
       h @ prefix_segment C p @ message rec @ suffix_segment C s) \<and>
   (prefix_segment C p \<noteq> [] \<longleftrightarrow> p \<noteq> None) \<and>
   (suffix_segment C s \<noteq> [] \<longleftrightarrow> s \<noteq> None) \<and>
   prefix_segment C (Some []) = EthNavy C @ EthReset C @ '' '' \<and>
   suffix_segment C (Some []) = '' '' @ EthNavy C @ EthReset C \<and>
   formatted C L (rec\<lparr>prefix := Some []\<rparr>) \<noteq> formatted C L (rec\<lparr>prefix := None\<rparr>) \<and>
   formatted C L (rec\<lparr>suffix := Some []\<rparr>) \<noteq> formatted C L (rec\<lparr>suffix := None\<rparr>) \<and>
   sink_filter options (rec\<lparr>prefix := p, suffix := s\<rparr>) = sink_filter options rec"
proof -
  let ?head = "left_aligned 5 (verbosityToString L (severity rec)) @ '' '' @
     EthViolet C @ format_date_time (timestamp rec) @ EthReset C @ '' '' @
     EthNavy C @ left_aligned 4 (threadName rec) @ EthReset C @ '' '' @
     left_aligned 6 (channel rec) @ '' ''"
  have head: "\<exists>h. \<forall>p s. formatted C L (rec\<lparr>prefix := p, suffix := s\<rparr>) =
       h @ prefix_segment C p @ message rec @ suffix_segment C s"
  proof (intro exI allI)
    fix p s
    show "formatted C L (rec\<lparr>prefix := p, suffix := s\<rparr>) =
        ?head @ prefix_segment C p @ message rec @ suffix_segment C s"
      by (simp add: formatted_eq)
  qed
  have pre_iff: "prefix_segment C p \<noteq> [] \<longleftrightarrow> p \<noteq> None"
    by (simp add: prefix_segment_def split: option.splits)
  have suf_iff: "suffix_segment C s \<noteq> [] \<longleftrightarrow> s \<noteq> None"
    by (simp add: suffix_segment_def split: option.splits)
  have pre_empty: "prefix_segment C (Some []) = EthNavy C @ EthReset C @ '' ''"
    by (simp add: prefix_segment_def)
  have suf_empty: "suffix_segment C (Some []) = '' '' @ EthNavy C @ EthReset C"
    by (simp add: suffix_segment_def)
  have "length (formatted C L (rec\<lparr>prefix := Some []\<rparr>)) \<noteq>
      length (formatted C L (rec\<lparr>prefix := None\<rparr>))"
    by (simp add: formatted_eq prefix_segment_def)
  then have pre: "formatted C L (rec\<lparr>prefix := Some []\<rparr>) \<noteq> formatted C L (rec\<lparr>prefix := None\<rparr>)"
    by (rule length_differs)
  have "length (formatted C L (rec\<lparr>suffix := Some []\<rparr>)) \<noteq>
      length (formatted C L (rec\<lparr>suffix := None\<rparr>))"
    by (simp add: formatted_eq suffix_segment_def)
  then have suf: "formatted C L (rec\<lparr>suffix := Some []\<rparr>) \<noteq> formatted C L (rec\<lparr>suffix := None\<rparr>)"
    by (rule length_differs)
  have filter: "sink_filter options (rec\<lparr>prefix := p, suffix := s\<rparr>) = sink_filter options rec"
    by (simp add: sink_filter_def)
  show ?thesis
    by (intro conjI) (fact head pre_iff suf_iff pre_empty suf_empty pre suf filter)+
qed

theorem optional_segments_witness:
  "formatted ansi_colours levels0 (boom\<lparr>prefix := Some []\<rparr>) \<noteq>
     formatted ansi_colours levels0 (boom\<lparr>prefix := None\<rparr>) \<and>
   formatted ansi_colours levels0 (boom\<lparr>suffix := Some []\<rparr>) \<noteq>
     formatted ansi_colours levels0 (boom\<lparr>suffix := None\<rparr>) \<and>
   prefix_segment ansi_colours (Some []) = CHR 0x1B # ''[34m'' @ CHR 0x1B # ''[0m '' \<and>
   prefix_segment ansi_colours None = []"
proof -
  note segments = optional_segments [of ansi_colours levels0 boom None None info_all]
  from segments
  have a: "formatted ansi_colours levels0 (boom\<lparr>prefix := Some []\<rparr>) \<noteq>
      formatted ansi_colours levels0 (boom\<lparr>prefix := None\<rparr>)"
    by (elim conjE)
  from segments
  have b: "formatted ansi_colours levels0 (boom\<lparr>suffix := Some []\<rparr>) \<noteq>
      formatted ansi_colours levels0 (boom\<lparr>suffix := None\<rparr>)"
    by (elim conjE)
  from segments
  have "prefix_segment ansi_colours (Some []) = EthNavy ansi_colours @ EthReset ansi_colours @ '' ''"
    by (elim conjE)
  then have c: "prefix_segment ansi_colours (Some []) = CHR 0x1B # ''[34m'' @ CHR 0x1B # ''[0m ''"
    by (simp add: ansi_colours_def)
  from segments
  have "prefix_segment ansi_colours None \<noteq> [] \<longleftrightarrow> None \<noteq> (None :: string option)"
    by (elim conjE)
  then have d: "prefix_segment ansi_colours None = []"
    by simp
  from a b c d show ?thesis
    by (intro conjI)
qed


subsection \<open>Thread names and the trace flag\<close>

lemma run_Nil: "run p [] st = st"
  by (simp add: run_def)

lemma run_Cons: "run p (c # cs) st = run p cs (exec p c st)"
  by (simp add: run_def)

lemma exec_name_other:
  "\<not> names_thread t c \<Longrightarrow> getThreadName p t (exec p c st) = getThreadName p t st"
  by (cases c; cases p)
     (simp_all add: names_thread_def getThreadName_def setThreadName_def setupLogging_def
       pthread_setname_np_def pthread_getname_np_def)

lemma run_name_other:
  "\<forall>c \<in> set cs. \<not> names_thread t c \<Longrightarrow> getThreadName p t (run p cs st) = getThreadName p t st"
  by (induction cs arbitrary: st) (simp_all add: run_Nil run_Cons exec_name_other)

lemma c_str_c_str: "c_str (c_str n) = c_str n"
  by (simp add: c_str_def)

lemma c_str_plain: "CHR 0x00 \<notin> set n \<Longrightarrow> c_str n = n"
  by (auto simp: c_str_def)

lemma getThreadName_after_set:
  "getThreadName p t (setThreadName p t n st) =
     (case p of
        Other \<Rightarrow> n
      | Glibc \<Rightarrow> if length (c_str n) \<le> 15 then c_str n else getThreadName p t st
      | Apple \<Rightarrow> if length (c_str n) \<le> 63 then c_str n else getThreadName p t st)"
  by (cases p)
     (simp_all add: getThreadName_def setThreadName_def pthread_setname_np_def
       pthread_getname_np_def c_str_c_str)

lemma getThreadName_initially:
  "getThreadName p t (initial_state main_thread os_names) =
     (if p = Other then (if t = main_thread then ''main'' else ''<unknown>'')
      else c_str (os_names t))"
  by (cases p)
     (simp_all add: getThreadName_def initial_state_def ThreadLocalLogName_def
       pthread_getname_np_def)

lemma exec_flag: "\<not> is_setup c \<Longrightarrow> g_vmTraceEnabled (exec p c st) = g_vmTraceEnabled st"
  by (cases c; cases p) (simp_all add: is_setup_def setThreadName_def pthread_setname_np_def)

lemma run_flag:
  "\<forall>c \<in> set cs. \<not> is_setup c \<Longrightarrow> g_vmTraceEnabled (run p cs st) = g_vmTraceEnabled st"
  by (induction cs arbitrary: st) (simp_all add: run_Nil run_Cons exec_flag)

text \<open>
  Claim C5, as the code has it in its three builds. Let a thread call \<open>setThreadName n\<close>,
  in any state, followed by any calls that do not set the name of that thread again. In the
  build that keeps the names itself \<open>getThreadName\<close> on that thread then returns \<open>n\<close>.
  In the glibc and Apple builds it returns the part of \<open>n\<close> before the first null byte if
  that part has at most 15 (glibc) or 63 (Apple) bytes, and what it returned before the call
  otherwise; so it returns \<open>n\<close> whenever \<open>n\<close> has no null byte and is within the limit.
  As long as a thread has not set its name, \<open>getThreadName\<close> on it returns, in the build
  that keeps the names itself, \<open>main\<close> on the main thread and \<open><unknown>\<close> on every other
  thread, and in the glibc and Apple builds the name the operating system has given the
  thread.
\<close>

theorem thread_name_registry:
  "((\<forall>c \<in> set later. \<not> names_thread t c) \<longrightarrow>
      getThreadName p t (run p (SetThreadName t n # later) st) =
        (case p of
           Other \<Rightarrow> n
         | Glibc \<Rightarrow> if length (c_str n) \<le> 15 then c_str n else getThreadName p t st
         | Apple \<Rightarrow> if length (c_str n) \<le> 63 then c_str n else getThreadName p t st)) \<and>
   ((\<forall>c \<in> set later. \<not> names_thread t c) \<and>
    (p = Other \<or> CHR 0x00 \<notin> set n \<and> length n \<le> (if p = Glibc then 15 else 63)) \<longrightarrow>
      getThreadName p t (run p (SetThreadName t n # later) st) = n) \<and>
   ((\<forall>c \<in> set cs. \<not> names_thread t c) \<longrightarrow>
      getThreadName p t (run p cs (initial_state main_thread os_names)) =
        (if p = Other then (if t = main_thread then ''main'' else ''<unknown>'')
         else c_str (os_names t)))"
proof (intro conjI impI)
  assume "\<forall>c \<in> set later. \<not> names_thread t c"
  then have "getThreadName p t (run p later (setThreadName p t n st)) =
      getThreadName p t (setThreadName p t n st)"
    by (rule run_name_other)
  then show "getThreadName p t (run p (SetThreadName t n # later) st) =
      (case p of
         Other \<Rightarrow> n
       | Glibc \<Rightarrow> if length (c_str n) \<le> 15 then c_str n else getThreadName p t st
       | Apple \<Rightarrow> if length (c_str n) \<le> 63 then c_str n else getThreadName p t st)"
    by (simp only: run_Cons exec.simps getThreadName_after_set)
next
  assume a: "(\<forall>c \<in> set later. \<not> names_thread t c) \<and>
    (p = Other \<or> CHR 0x00 \<notin> set n \<and> length n \<le> (if p = Glibc then 15 else 63))"
  then have "getThreadName p t (run p later (setThreadName p t n st)) =
      getThreadName p t (setThreadName p t n st)"
    by (intro run_name_other) simp
  moreover have "getThreadName p t (setThreadName p t n st) = n"
    using a by (cases p) (auto simp: getThreadName_after_set c_str_plain)
  ultimately show "getThreadName p t (run p (SetThreadName t n # later) st) = n"
    by (simp only: run_Cons exec.simps)
next
  assume "\<forall>c \<in> set cs. \<not> names_thread t c"
  then have "getThreadName p t (run p cs (initial_state main_thread os_names)) =
      getThreadName p t (initial_state main_thread os_names)"
    by (rule run_name_other)
  then show "getThreadName p t (run p cs (initial_state main_thread os_names)) =
      (if p = Other then (if t = main_thread then ''main'' else ''<unknown>'')
       else c_str (os_names t))"
    by (simp only: getThreadName_initially)
qed

theorem thread_name_registry_witness:
  "getThreadName Other 1 (run Other [SetThreadName 1 ''miner'', SetThreadName 2 ''p2p'',
      SetupLogging info_all, GetThreadName 1]
      (run Other [SetThreadName 1 ''worker''] (initial_state 0 aleth_names))) = ''miner'' \<and>
   getThreadName Glibc 1 (run Glibc [SetThreadName 1 ''miner'', SetThreadName 2 ''p2p'',
      SetupLogging info_all, GetThreadName 1]
      (run Glibc [SetThreadName 1 ''worker''] (initial_state 0 aleth_names))) = ''miner'' \<and>
   getThreadName Apple 1 (run Apple [SetThreadName 1 ''blockchain-sync1'', GetThreadName 1]
      (initial_state 0 aleth_names)) = ''blockchain-sync1'' \<and>
   getThreadName Other 3 (run Other [SetThreadName 2 ''p2p'', SetupLogging info_all,
      GetThreadName 3] (initial_state 0 aleth_names)) = ''<unknown>'' \<and>
   getThreadName Other 0 (run Other [SetThreadName 2 ''p2p'', SetupLogging info_all,
      GetThreadName 3] (initial_state 0 aleth_names)) = ''main'' \<and>
   getThreadName Glibc 3 (run Glibc [SetThreadName 2 ''p2p'', SetupLogging info_all,
      GetThreadName 3] (initial_state 0 aleth_names)) = ''aleth''"
proof -
  let ?later = "[SetThreadName 2 ''p2p'', SetupLogging info_all, GetThreadName 1]"
  let ?cs = "[SetThreadName 2 ''p2p'', SetupLogging info_all, GetThreadName 3]"
  have other: "(\<forall>c \<in> set ?later. \<not> names_thread 1 c) \<and>
      (Other = Other \<or> CHR 0x00 \<notin> set ''miner'' \<and>
       length ''miner'' \<le> (if Other = Glibc then 15 else 63))"
    by (simp add: names_thread_def)
  from other
    thread_name_registry [of ?later 1 Other "''miner''"
      "run Other [SetThreadName 1 ''worker''] (initial_state 0 aleth_names)" "[]" 0 aleth_names]
  have a: "getThreadName Other 1 (run Other (SetThreadName 1 ''miner'' # ?later)
      (run Other [SetThreadName 1 ''worker''] (initial_state 0 aleth_names))) = ''miner''"
    by blast
  have glibc: "(\<forall>c \<in> set ?later. \<not> names_thread 1 c) \<and>
      (Glibc = Other \<or> CHR 0x00 \<notin> set ''miner'' \<and>
       length ''miner'' \<le> (if Glibc = Glibc then 15 else 63))"
    by (simp add: names_thread_def)
  from glibc
    thread_name_registry [of ?later 1 Glibc "''miner''"
      "run Glibc [SetThreadName 1 ''worker''] (initial_state 0 aleth_names)" "[]" 0 aleth_names]
  have b: "getThreadName Glibc 1 (run Glibc (SetThreadName 1 ''miner'' # ?later)
      (run Glibc [SetThreadName 1 ''worker''] (initial_state 0 aleth_names))) = ''miner''"
    by blast
  have apple: "(\<forall>c \<in> set [GetThreadName 1]. \<not> names_thread 1 c) \<and>
      (Apple = Other \<or> CHR 0x00 \<notin> set ''blockchain-sync1'' \<and>
       length ''blockchain-sync1'' \<le> (if Apple = Glibc then 15 else 63))"
    by (simp add: names_thread_def)
  from apple
    thread_name_registry [of "[GetThreadName 1]" 1 Apple "''blockchain-sync1''"
      "initial_state 0 aleth_names" "[]" 0 aleth_names]
  have c: "getThreadName Apple 1 (run Apple (SetThreadName 1 ''blockchain-sync1'' #
      [GetThreadName 1]) (initial_state 0 aleth_names)) = ''blockchain-sync1''"
    by blast
  have cs3: "\<forall>c \<in> set ?cs. \<not> names_thread 3 c"
    by (simp add: names_thread_def)
  have cs0: "\<forall>c \<in> set ?cs. \<not> names_thread 0 c"
    by (simp add: names_thread_def)
  from cs3 thread_name_registry [of "[]" 3 Other "[]" "initial_state 0 aleth_names" ?cs 0 aleth_names]
  have "getThreadName Other 3 (run Other ?cs (initial_state 0 aleth_names)) =
      (if Other = Other then (if (3::nat) = 0 then ''main'' else ''<unknown>'')
       else c_str (aleth_names 3))"
    by blast
  then have d: "getThreadName Other 3 (run Other ?cs (initial_state 0 aleth_names)) = ''<unknown>''"
    by simp
  from cs0 thread_name_registry [of "[]" 0 Other "[]" "initial_state 0 aleth_names" ?cs 0 aleth_names]
  have "getThreadName Other 0 (run Other ?cs (initial_state 0 aleth_names)) =
      (if Other = Other then (if (0::nat) = 0 then ''main'' else ''<unknown>'')
       else c_str (aleth_names 0))"
    by blast
  then have e: "getThreadName Other 0 (run Other ?cs (initial_state 0 aleth_names)) = ''main''"
    by simp
  from cs3 thread_name_registry [of "[]" 3 Glibc "[]" "initial_state 0 aleth_names" ?cs 0 aleth_names]
  have "getThreadName Glibc 3 (run Glibc ?cs (initial_state 0 aleth_names)) =
      (if Glibc = Other then (if (3::nat) = 0 then ''main'' else ''<unknown>'')
       else c_str (aleth_names 3))"
    by blast
  then have f: "getThreadName Glibc 3 (run Glibc ?cs (initial_state 0 aleth_names)) = ''aleth''"
    by (simp add: aleth_names_def c_str_def)
  from a b c d e f show ?thesis
    by (intro conjI)
qed

text \<open>
  The claim as it was stated fails in each build. In the build that keeps the names itself,
  the main thread is called \<open>main\<close> without any call of \<open>setThreadName\<close>. In the glibc
  build a thread that never called \<open>setThreadName\<close> has the name the operating system gave
  it, and after \<open>setThreadName\<close> with a name of 16 bytes \<open>getThreadName\<close> still returns
  the earlier name.
\<close>

theorem thread_name_registry_counterexample:
  "getThreadName Other 0 (run Other [] (initial_state 0 aleth_names)) = ''main'' \<and>
   getThreadName Other 0 (run Other [] (initial_state 0 aleth_names)) \<noteq> ''<unknown>'' \<and>
   getThreadName Glibc 1 (run Glibc [] (initial_state 0 aleth_names)) = ''aleth'' \<and>
   getThreadName Glibc 1 (run Glibc [] (initial_state 0 aleth_names)) \<noteq> ''<unknown>'' \<and>
   getThreadName Glibc 1 (run Glibc [SetThreadName 1 ''blockchain-sync1'']
     (initial_state 0 aleth_names)) = ''aleth'' \<and>
   getThreadName Glibc 1 (run Glibc [SetThreadName 1 ''blockchain-sync1'']
     (initial_state 0 aleth_names)) \<noteq> ''blockchain-sync1''"
  by (simp add: run_Nil run_Cons getThreadName_def setThreadName_def pthread_setname_np_def
      pthread_getname_np_def initial_state_def ThreadLocalLogName_def aleth_names_def c_str_def)

text \<open>
  Claim C8. After \<open>setupLogging c\<close>, in any state and any build, \<open>isVmTraceEnabled\<close>
  returns the \<open>vmTrace\<close> field of \<open>c\<close>, and it still does after any calls that are not a
  set-up.
\<close>

theorem trace_flag_after_setup:
  assumes "\<forall>c \<in> set later. \<not> is_setup c"
  shows "isVmTraceEnabled (setupLogging options st) = vmTrace options \<and>
         isVmTraceEnabled (run p (SetupLogging options # later) st) = vmTrace options"
  using assms by (simp add: run_Cons isVmTraceEnabled_def run_flag setupLogging_def)

theorem trace_flag_after_setup_witness:
  "isVmTraceEnabled (run Glibc [SetupLogging info_no_net, SetThreadName 1 ''miner'',
      IsVmTraceEnabled, GetThreadName 1]
      (run Glibc [SetupLogging info_all] (initial_state 0 aleth_names))) = True"
proof -
  let ?later = "[SetThreadName 1 ''miner'', IsVmTraceEnabled, GetThreadName 1]"
  have "\<forall>c \<in> set ?later. \<not> is_setup c"
    by (simp add: is_setup_def)
  from trace_flag_after_setup [OF this, where options = info_no_net and p = Glibc
      and st = "run Glibc [SetupLogging info_all] (initial_state 0 aleth_names)"]
  show ?thesis
    by (simp add: info_no_net_def)
qed

text \<open>
  Claim C10. In every state reached from the initial one without a call of \<open>setupLogging\<close>,
  in any build, \<open>isVmTraceEnabled\<close> returns false.
\<close>

theorem trace_flag_initially_false:
  assumes "\<forall>c \<in> set cs. \<not> is_setup c"
  shows "isVmTraceEnabled (run p cs (initial_state main_thread os_names)) = False"
  using assms by (simp add: isVmTraceEnabled_def run_flag initial_state_def)

theorem trace_flag_initially_false_witness:
  "\<not> isVmTraceEnabled (initial_state 0 aleth_names) \<and>
   \<not> isVmTraceEnabled (run Glibc [SetThreadName 1 ''miner'', IsVmTraceEnabled, GetThreadName 1]
      (initial_state 0 aleth_names))"
proof -
  let ?cs = "[SetThreadName 1 ''miner'', IsVmTraceEnabled, GetThreadName 1]"
  have "\<forall>c \<in> set ?cs. \<not> is_setup c"
    by (simp add: is_setup_def)
  from trace_flag_initially_false [OF this, where p = Glibc and main_thread = 0
      and os_names = aleth_names]
    trace_flag_initially_false [where cs = "[]" and p = Glibc and main_thread = 0
      and os_names = aleth_names]
  show ?thesis
    by (simp add: run_Nil)
qed

subsection \<open>Failures while a record is delivered\<close>








subsection \<open>Order of delivery through the asynchronous sink\<close>

lemma async_run_snoc:
  "async_run options C L (steps @ [x]) = async_exec options C L x (async_run options C L steps)"
  by (simp add: async_run_def)

lemma submissions_append: "submissions (xs @ ys) = submissions xs @ submissions ys"
  by (induction xs rule: submissions.induct) simp_all

lemma accepted_submissions_snoc:
  "accepted_submissions options (steps @ [x]) =
     accepted_submissions options steps @
       (case x of
          Submit t rec \<Rightarrow> if sink_filter options rec then [(t, rec)] else []
        | Worker \<Rightarrow> [])"
  by (cases x) (simp_all add: accepted_submissions_def submissions_append)

lemma drop_Cons_step:
  assumes "drop n xs = y # ys"
  shows "n < length xs \<and> take (Suc n) xs = take n xs @ [y] \<and> drop (Suc n) xs = ys"
proof -
  from assms have n: "n < length xs"
    by (cases "n < length xs") simp_all
  from assms have "xs ! n = y"
    using n by (metis Cons_nth_drop_Suc list.inject)
  moreover from assms have "drop (Suc n) xs = ys"
    using n by (metis Cons_nth_drop_Suc list.inject)
  ultimately show ?thesis
    using n by (simp add: take_Suc_conv_app_nth)
qed

text \<open>
  At every moment of every schedule, what has been written are the texts of the first
  accepted submissions, and the queue holds the accepted submissions that follow them.
\<close>

lemma async_invariant:
  "length (written_out (async_run options C L steps)) \<le>
     length (accepted_submissions options steps) \<and>
   written_out (async_run options C L steps) =
     map (\<lambda>(t, rec). formatted C L rec)
       (take (length (written_out (async_run options C L steps)))
         (accepted_submissions options steps)) \<and>
   queued (async_run options C L steps) =
     drop (length (written_out (async_run options C L steps)))
       (accepted_submissions options steps)"
proof (induction steps rule: rev_induct)
  case Nil
  show ?case
    by (simp add: async_run_def accepted_submissions_def)
next
  case (snoc x steps)
  let ?s = "async_run options C L steps"
  let ?acc = "accepted_submissions options steps"
  let ?n = "length (written_out ?s)"
  from snoc have le: "?n \<le> length ?acc"
    and out: "written_out ?s = map (\<lambda>(t, rec). formatted C L rec) (take ?n ?acc)"
    and q: "queued ?s = drop ?n ?acc"
    by simp_all
  show ?case
  proof (cases x)
    case (Submit t rec)
    show ?thesis
    proof (cases "sink_filter options rec")
      case True
      with Submit le out q show ?thesis
        by (simp add: async_run_snoc accepted_submissions_snoc submit_def)
    next
      case False
      with Submit le out q show ?thesis
        by (simp add: async_run_snoc accepted_submissions_snoc submit_def)
    qed
  next
    case Worker
    show ?thesis
    proof (cases "queued ?s")
      case Nil
      with Worker le out q show ?thesis
        by (simp add: async_run_snoc accepted_submissions_snoc worker_def)
    next
      case (Cons y ys)
      obtain t rec where y: "y = (t, rec)"
        by (cases y)
      from Cons q have "drop ?n ?acc = y # ys"
        by simp
      from drop_Cons_step [OF this]
      have lt: "?n < length ?acc" and tk: "take (Suc ?n) ?acc = take ?n ?acc @ [y]"
        and dr: "drop (Suc ?n) ?acc = ys"
        by simp_all
      have s': "async_run options C L (steps @ [x]) =
          ?s\<lparr>queued := ys, written_out := written_out ?s @ [formatted C L rec]\<rparr>"
        using Worker Cons y by (simp add: async_run_snoc worker_def)
      have acc': "accepted_submissions options (steps @ [x]) = ?acc"
        using Worker by (simp add: accepted_submissions_snoc)
      have "written_out ?s @ [formatted C L rec] =
          map (\<lambda>(t, rec). formatted C L rec) (take (Suc ?n) ?acc)"
        using out y by (simp add: tk)
      with lt dr show ?thesis
        by (simp add: s' acc')
    qed
  qed
qed

lemma filter_take_prefix: "\<exists>k. filter P (take n xs) = take k (filter P xs)"
proof
  have "filter P xs = filter P (take n xs) @ filter P (drop n xs)"
    by (simp flip: filter_append)
  then show "filter P (take n xs) = take (length (filter P (take n xs))) (filter P xs)"
    by simp
qed

lemma of_thread_take_prefix: "\<exists>k. of_thread t (take n xs) = take k (of_thread t xs)"
proof -
  obtain k where "filter (\<lambda>(u, rec). u = t) (take n xs) = take k (filter (\<lambda>(u, rec). u = t) xs)"
    using filter_take_prefix by blast
  then have "of_thread t (take n xs) = take k (of_thread t xs)"
    by (simp add: of_thread_def take_map)
  then show ?thesis ..
qed

lemma map_snd_accepted:
  "map snd (accepted_submissions options steps) =
     filter (sink_filter options) (map snd (submissions steps))"
  by (simp add: accepted_submissions_def filter_map comp_def case_prod_unfold)

text \<open>
  Claim C9. For every schedule of submissions and worker steps, the texts on the stream are
  those of the first accepted submissions, in the order submitted, and the queue holds the
  later ones; so the accepted records among those one thread submits are written in exactly
  the order that thread submitted them, those written so far being the first of them, and
  once the queue is drained all of them are written.
\<close>

theorem asynchronous_sink_fifo:
  fixes options C L steps t
  defines "s \<equiv> async_run options C L steps"
    and "acc \<equiv> accepted_submissions options steps"
  defines "n \<equiv> length (written_out s)"
  shows "n \<le> length acc \<and>
         written_out s = map (\<lambda>(t, rec). formatted C L rec) (take n acc) \<and>
         queued s = drop n acc \<and>
         written_out s =
           map (formatted C L) (take n (filter (sink_filter options) (map snd (submissions steps)))) \<and>
         (\<exists>k. of_thread t (take n acc) = take k (of_thread t acc)) \<and>
         (queued s = [] \<longrightarrow>
            written_out s = map (\<lambda>(t, rec). formatted C L rec) acc \<and>
            of_thread t (take n acc) = of_thread t acc)"
proof -
  have inv: "n \<le> length acc"
    "written_out s = map (\<lambda>(t, rec). formatted C L rec) (take n acc)"
    "queued s = drop n acc"
    using async_invariant [of options C L steps] by (simp_all add: s_def acc_def n_def)
  have "map (\<lambda>(t, rec). formatted C L rec) (take n acc) = map (formatted C L) (take n (map snd acc))"
    by (simp add: take_map case_prod_unfold)
  with inv(2)
  have single: "written_out s =
      map (formatted C L) (take n (filter (sink_filter options) (map snd (submissions steps))))"
    by (simp add: acc_def map_snd_accepted)
  have per_thread: "\<exists>k. of_thread t (take n acc) = take k (of_thread t acc)"
    by (rule of_thread_take_prefix)
  have drained: "written_out s = map (\<lambda>(t, rec). formatted C L rec) acc \<and>
      of_thread t (take n acc) = of_thread t acc" if "queued s = []"
  proof -
    from that inv(1,3) have "take n acc = acc"
      by simp
    with inv(2) show ?thesis
      by simp
  qed
  from inv single per_thread drained show ?thesis
    by blast
qed

theorem asynchronous_sink_fifo_witness:
  "queued (async_run info_no_net ansi_colours levels0
      [Submit 1 (boom\<lparr>channel := ''rpc''\<rparr>), Submit 1 boom, Worker,
       Submit 1 (boom\<lparr>channel := ''rpc'', message := ''bang''\<rparr>), Worker, Worker]) = [] \<and>
   written_out (async_run info_no_net ansi_colours levels0
      [Submit 1 (boom\<lparr>channel := ''rpc''\<rparr>), Submit 1 boom, Worker,
       Submit 1 (boom\<lparr>channel := ''rpc'', message := ''bang''\<rparr>), Worker, Worker]) =
     [formatted ansi_colours levels0 (boom\<lparr>channel := ''rpc''\<rparr>),
      formatted ansi_colours levels0 (boom\<lparr>channel := ''rpc'', message := ''bang''\<rparr>)]"
proof -
  let ?steps = "[Submit 1 (boom\<lparr>channel := ''rpc''\<rparr>), Submit 1 boom, Worker,
       Submit 1 (boom\<lparr>channel := ''rpc'', message := ''bang''\<rparr>), Worker, Worker]"
  have drained: "queued (async_run info_no_net ansi_colours levels0 ?steps) = []"
    by (simp add: async_run_def submit_def worker_def sink_filter_def contains_def
        info_no_net_def boom_def)
  have acc: "accepted_submissions info_no_net ?steps =
      [(1, boom\<lparr>channel := ''rpc''\<rparr>), (1, boom\<lparr>channel := ''rpc'', message := ''bang''\<rparr>)]"
    by (simp add: accepted_submissions_def sink_filter_def contains_def info_no_net_def boom_def)
  from asynchronous_sink_fifo [of info_no_net ansi_colours levels0 ?steps 1] drained
  have "written_out (async_run info_no_net ansi_colours levels0 ?steps) =
      map (\<lambda>(t, rec). formatted ansi_colours levels0 rec) (accepted_submissions info_no_net ?steps)"
    by blast
  then have "written_out (async_run info_no_net ansi_colours levels0 ?steps) =
      [formatted ansi_colours levels0 (boom\<lparr>channel := ''rpc''\<rparr>),
       formatted ansi_colours levels0 (boom\<lparr>channel := ''rpc'', message := ''bang''\<rparr>)]"
    by (simp only: acc list.map prod.case)
  with drained show ?thesis
    by (intro conjI)
qed

end
